theory Spec2Isabelle
  imports Complex_Main
begin

section \<open>Chainmail deformation of a voxel grid (deform.py)\<close>

text \<open>
  The grid is a numpy array of shape \<open>(n, 3)\<close>: a list of positions in index order.
  Coordinates, the displacement, the spacing and the stiffness are integers (numpy
  integer arrays, taken without overflow), so that a fourth slot read back from an array
  is an integer that can index the grid. A row of four numbers \<open>[x, y, z, t]\<close> is a
  position with a fourth slot \<open>t\<close>; the code stores a direction code there first and a
  grid index later.
\<close>

type_synonym position = "int \<times> int \<times> int"
type_synonym entry = "position \<times> int"

text \<open>The exceptions the module can raise.\<close>

datatype error = IndexError | ValueError

subsection \<open>Index lookup\<close>

text \<open>
  \<^verbatim>\<open>np.where(np.all(matrix == voxel, axis=1))[0][0]\<close>: the first index whose row equals
  the voxel; \<open>None\<close> stands for the IndexError of \<^verbatim>\<open>[0]\<close> on an empty result.
\<close>

fun find_index :: "position \<Rightarrow> position list \<Rightarrow> nat option" where
  "find_index voxel [] = None"
| "find_index voxel (p # ps) =
     (if p = voxel then Some 0 else map_option Suc (find_index voxel ps))"

text \<open>Reading row \<open>i\<close> of a numpy array: negative indices count from the end.\<close>

definition np_row :: "position list \<Rightarrow> int \<Rightarrow> error + position" where
  "np_row matrix i =
     (let n = int (length matrix) in
      if 0 \<le> i \<and> i < n then Inr (matrix ! nat i)
      else if - n \<le> i \<and> i < 0 then Inr (matrix ! nat (i + n))
      else Inl IndexError)"

text \<open>Writing row \<open>i\<close> of a numpy array.\<close>

definition np_set_row :: "position list \<Rightarrow> int \<Rightarrow> position \<Rightarrow> error + position list" where
  "np_set_row matrix i p =
     (let n = int (length matrix) in
      if 0 \<le> i \<and> i < n then Inr (matrix[nat i := p])
      else if - n \<le> i \<and> i < 0 then Inr (matrix[nat (i + n) := p])
      else Inl IndexError)"

subsection \<open>The six directional constraint functions\<close>

text \<open>
  Each function copies the candidate, overwrites its coordinates in place and returns
  \<open>0\<close> when nothing changed (here \<open>None\<close>), the candidate otherwise. Every block reads
  and writes one coordinate of the candidate only, so the three blocks are independent.
\<close>

fun deform_right :: "entry \<Rightarrow> entry \<Rightarrow> int \<Rightarrow> int \<Rightarrow> entry option" where
  "deform_right ((s0, s1, s2), s3) ((c0, c1, c2), c3) step stiffness_coef =
     (let minimum = step - stiffness_coef;
          maximum = step + stiffness_coef;
          shear = stiffness_coef;
          n0 = (if c0 - s0 < minimum then s0 + minimum
                else if c0 - s0 > maximum then s1 + maximum else c0);
          n1 = (if c1 - s1 < - shear then s1 - shear
                else if c1 - s1 > shear then s1 + shear else c1);
          n2 = (if c2 - s2 < - shear then s2 - shear
                else if c2 - s2 > shear then s2 + shear else c2)
      in if ((c0, c1, c2), c3) = ((n0, n1, n2), c3) then None else Some ((n0, n1, n2), c3))"

fun deform_left :: "entry \<Rightarrow> entry \<Rightarrow> int \<Rightarrow> int \<Rightarrow> entry option" where
  "deform_left ((s0, s1, s2), s3) ((c0, c1, c2), c3) step stiffness_coef =
     (let minimum = step - stiffness_coef;
          maximum = step + stiffness_coef;
          shear = stiffness_coef;
          n0 = (if c0 - s0 < - maximum then s0 - maximum
                else if c0 - s0 > - minimum then s1 - minimum else c0);
          n1 = (if c1 - s1 < - shear then s1 + shear
                else if c1 - s1 > shear then s1 + shear else c1);
          n2 = (if c2 - s2 < - shear then s2 - shear
                else if c2 - s2 > shear then s2 + shear else c2)
      in if ((c0, c1, c2), c3) = ((n0, n1, n2), c3) then None else Some ((n0, n1, n2), c3))"

fun deform_top :: "entry \<Rightarrow> entry \<Rightarrow> int \<Rightarrow> int \<Rightarrow> entry option" where
  "deform_top ((s0, s1, s2), s3) ((c0, c1, c2), c3) step shear =
     (let minimum = step - shear;
          maximum = step + shear;
          n1 = (if c1 - s1 < minimum then s1 + minimum
                else if c1 - s1 > maximum then s1 + maximum else c1);
          n0 = (if c0 - s0 < - shear then s0 + shear
                else if c0 - s0 > shear then s1 + shear else c0);
          n2 = (if c2 - s2 < - shear then s2 - shear
                else if c2 - s2 > shear then s2 + shear else c2)
      in if ((c0, c1, c2), c3) = ((n0, n1, n2), c3) then None else Some ((n0, n1, n2), c3))"

fun deform_lower :: "entry \<Rightarrow> entry \<Rightarrow> int \<Rightarrow> int \<Rightarrow> entry option" where
  "deform_lower ((s0, s1, s2), s3) ((c0, c1, c2), c3) step shear =
     (let minimum = step - shear;
          maximum = step + shear;
          n1 = (if c1 - s1 > - minimum then s1 - minimum
                else if c1 - s1 < - maximum then s1 - maximum else c1);
          n0 = (if c0 - s0 < - shear then s0 + shear
                else if c0 - s0 > shear then s1 + shear else c0);
          n2 = (if c2 - s2 < - shear then s2 - shear
                else if c2 - s2 > shear then s2 + shear else c2)
      in if ((c0, c1, c2), c3) = ((n0, n1, n2), c3) then None else Some ((n0, n1, n2), c3))"

fun deform_down :: "entry \<Rightarrow> entry \<Rightarrow> int \<Rightarrow> int \<Rightarrow> entry option" where
  "deform_down ((s0, s1, s2), s3) ((c0, c1, c2), c3) step shear =
     (let minimum = step - shear;
          maximum = step + shear;
          n2 = (if c2 - s2 > - minimum then s2 - minimum
                else if c2 - s2 < - maximum then s2 - maximum else c2);
          n0 = (if c0 - s0 < - shear then s0 + shear
                else if c0 - s0 > shear then s0 + shear else c0);
          n1 = (if c1 - s1 < - shear then s1 - shear
                else if c1 - s1 > shear then s1 + shear else c1)
      in if ((c0, c1, c2), c3) = ((n0, n1, n2), c3) then None else Some ((n0, n1, n2), c3))"

fun deform_up :: "entry \<Rightarrow> entry \<Rightarrow> int \<Rightarrow> int \<Rightarrow> entry option" where
  "deform_up ((s0, s1, s2), s3) ((c0, c1, c2), c3) step shear =
     (let minimum = step - shear;
          maximum = step + shear;
          n2 = (if c2 - s2 > minimum then s2 + minimum
                else if c2 - s2 > maximum then s2 + maximum else c2);
          n0 = (if c0 - s0 < - shear then s0 + shear
                else if c0 - s0 > shear then s0 + shear else c0);
          n1 = (if c1 - s1 < - shear then s1 - shear
                else if c1 - s1 > shear then s1 + shear else c1)
      in if ((c0, c1, c2), c3) = ((n0, n1, n2), c3) then None else Some ((n0, n1, n2), c3))"

text \<open>
  Dispatch on the direction code in the neighbour's fourth slot. For any other code the
  Python function falls off its end and returns \<^verbatim>\<open>None\<close>, which the caller's
  \<^verbatim>\<open>if use_neighbor:\<close> treats like the sentinel \<open>0\<close>.
\<close>

definition deform_neighbour :: "entry \<Rightarrow> entry \<Rightarrow> int \<Rightarrow> int \<Rightarrow> entry option" where
  "deform_neighbour sponsor neighbor step shear =
     (if snd neighbor = 0 then deform_right sponsor neighbor step shear
      else if snd neighbor = 1 then deform_left sponsor neighbor step shear
      else if snd neighbor = 2 then deform_top sponsor neighbor step shear
      else if snd neighbor = 3 then deform_lower sponsor neighbor step shear
      else if snd neighbor = 4 then deform_down sponsor neighbor step shear
      else if snd neighbor = 5 then deform_up sponsor neighbor step shear
      else None)"

subsection \<open>Neighbour enumeration\<close>

text \<open>
  \<^verbatim>\<open>np.ceil(np.power(cube_matrix.shape[0], 1 / 3) * step)\<close>, where \<open>1 / 3\<close> is the
  true division of Python 3 and the cube root is taken exactly: the rounding of the
  floating-point power is left out.
\<close>

definition side_length :: "nat \<Rightarrow> int \<Rightarrow> int" where
  "side_length count step = \<lceil>root 3 (real count) * real_of_int step\<rceil>"

text \<open>
  One of the six guarded blocks of \<open>find_neighbors\<close>: when the bound check holds, look
  the neighbour's position up (this can raise) and append it unless its index is in the
  history.
\<close>

definition add_neighbor ::
  "bool \<Rightarrow> entry \<Rightarrow> position list \<Rightarrow> int list \<Rightarrow> entry list \<Rightarrow> error + entry list" where
  "add_neighbor inside nb cube_matrix sponsor_hist neighbors =
     (if inside then
        (case find_index (fst nb) cube_matrix of
           None \<Rightarrow> Inl IndexError
         | Some i \<Rightarrow> Inr (if int i \<in> set sponsor_hist then neighbors else neighbors @ [nb]))
      else Inr neighbors)"

text \<open>Sequencing of steps that can raise.\<close>

definition and_then :: "error + 'a \<Rightarrow> ('a \<Rightarrow> error + 'b) \<Rightarrow> error + 'b" where
  "and_then r f = (case r of Inl e \<Rightarrow> Inl e | Inr x \<Rightarrow> f x)"

fun find_neighbors ::
  "position \<Rightarrow> position list \<Rightarrow> int list \<Rightarrow> int \<Rightarrow> bool \<Rightarrow> error + entry list" where
  "find_neighbors (x, y, z) cube_matrix sponsor_hist step surface_only =
     (let side = side_length (length cube_matrix) step in
      and_then (add_neighbor (x + step < side) ((x + step, y, z), 0) cube_matrix sponsor_hist [])
      (\<lambda>n0. and_then (add_neighbor (x - step \<ge> 0) ((x - step, y, z), 1) cube_matrix sponsor_hist n0)
      (\<lambda>n1. and_then (add_neighbor (y + step < side) ((x, y + step, z), 2) cube_matrix sponsor_hist n1)
      (\<lambda>n2. and_then (add_neighbor (y - step \<ge> 0) ((x, y - step, z), 3) cube_matrix sponsor_hist n2)
      (\<lambda>n3. if surface_only then Inr n3
            else and_then (add_neighbor (z - step \<ge> 0) ((x, y, z - step), 4) cube_matrix sponsor_hist n3)
                 (\<lambda>n4. add_neighbor (z + step < side) ((x, y, z + step), 5) cube_matrix sponsor_hist n4))))))"

subsection \<open>The sponsor region\<close>

definition padd :: "position \<Rightarrow> position \<Rightarrow> position" where
  "padd p v = (fst p + fst v, fst (snd p) + fst (snd v), snd (snd p) + snd (snd v))"

definition psub :: "position \<Rightarrow> position \<Rightarrow> position" where
  "psub p v = (fst p - fst v, fst (snd p) - fst (snd v), snd (snd p) - snd (snd v))"

text \<open>
  The variable \<open>original_sponsors\<close> starts as the one-dimensional array
  \<^verbatim>\<open>np.append(displacement_dst, sponsor_index)\<close> of shape \<open>(4,)\<close> and becomes a
  two-dimensional array of rows once a layer has been appended.
\<close>

datatype sponsors = Row entry | Table "entry list"

text \<open>
  \<^verbatim>\<open>for el in storage_layer: el[3] = find_index(el[:3], original_cube);
  sponsor_history.append(el[3])\<close>
\<close>

fun index_all :: "position list \<Rightarrow> entry list \<Rightarrow> int list \<Rightarrow> error + (entry list \<times> int list)" where
  "index_all original_cube [] sponsor_history = Inr ([], sponsor_history)"
| "index_all original_cube (el # els) sponsor_history =
     (case find_index (fst el) original_cube of
        None \<Rightarrow> Inl IndexError
      | Some i \<Rightarrow>
          and_then (index_all original_cube els (sponsor_history @ [int i]))
            (\<lambda>(els', h). Inr ((fst el, int i) # els', h)))"

text \<open>The loop \<^verbatim>\<open>while len(outside_layer) > 0\<close> of one layer.\<close>

fun collect_layer ::
  "position list \<Rightarrow> int \<Rightarrow> entry list \<Rightarrow> entry list \<Rightarrow> int list \<Rightarrow> error + (entry list \<times> int list)" where
  "collect_layer original_cube step [] storage_layer sponsor_history =
     Inr (storage_layer, sponsor_history)"
| "collect_layer original_cube step (out # outside_layer) storage_layer sponsor_history =
     and_then (np_row original_cube (snd out))
     (\<lambda>sponsor. and_then (find_neighbors sponsor original_cube sponsor_history step True)
     (\<lambda>neighbors. and_then (index_all original_cube (storage_layer @ neighbors) sponsor_history)
     (\<lambda>(storage_layer', sponsor_history').
        collect_layer original_cube step outside_layer storage_layer' sponsor_history')))"

text \<open>
  \<^verbatim>\<open>np.append(np.asarray(storage_layer), [original_sponsors], axis=0)\<close>. The first
  argument has shape \<open>(k, 4)\<close>, or \<open>(0,)\<close> when the layer is empty; the second has one
  dimension more than \<open>original_sponsors\<close>. Concatenation along an axis raises
  ValueError unless both have the same number of dimensions.
\<close>

definition np_append_layer :: "entry list \<Rightarrow> sponsors \<Rightarrow> error + sponsors" where
  "np_append_layer storage_layer original_sponsors =
     (case original_sponsors of
        Row r \<Rightarrow> (if storage_layer = [] then Inl ValueError else Inr (Table (storage_layer @ [r])))
      | Table rows \<Rightarrow> Inl ValueError)"

text \<open>
  The loop \<^verbatim>\<open>for i in range(displacement_area)\<close>; the first argument counts the
  iterations left. When the inner loop ends \<open>outside_layer\<close> is empty, so extending it
  by the layer leaves the layer.
\<close>

fun sponsor_layers ::
  "nat \<Rightarrow> position list \<Rightarrow> int \<Rightarrow> sponsors \<Rightarrow> entry list \<Rightarrow> int list \<Rightarrow> error + sponsors" where
  "sponsor_layers 0 original_cube step original_sponsors outside_layer sponsor_history =
     Inr original_sponsors"
| "sponsor_layers (Suc n) original_cube step original_sponsors outside_layer sponsor_history =
     and_then (collect_layer original_cube step outside_layer [] sponsor_history)
     (\<lambda>(storage_layer, sponsor_history').
        and_then (np_append_layer storage_layer original_sponsors)
        (\<lambda>original_sponsors'.
           sponsor_layers n original_cube step original_sponsors' storage_layer sponsor_history'))"

text \<open>
  \<^verbatim>\<open>original_sponsors[:, :3] += displacement_vector\<close>: two indices on a
  one-dimensional array raise IndexError.
\<close>

definition translate_sponsors :: "sponsors \<Rightarrow> position \<Rightarrow> error + entry list" where
  "translate_sponsors original_sponsors displacement_vector =
     (case original_sponsors of
        Row r \<Rightarrow> Inl IndexError
      | Table rows \<Rightarrow> Inr (map (\<lambda>el. (padd (fst el) displacement_vector, snd el)) rows))"

definition find_original_sponsors ::
  "position \<Rightarrow> position \<Rightarrow> position list \<Rightarrow> int \<Rightarrow> int \<Rightarrow> error + entry list" where
  "find_original_sponsors displacement_dst displacement_src original_cube step displacement_area =
     (let displacement_vector = psub displacement_dst displacement_src in
      case find_index displacement_src original_cube of
        None \<Rightarrow> Inl IndexError
      | Some sponsor_index \<Rightarrow>
          (let original_sponsors = (displacement_dst, int sponsor_index) in
           and_then (sponsor_layers (nat displacement_area) original_cube step
                       (Row original_sponsors) [original_sponsors] [int sponsor_index])
           (\<lambda>sponsors. translate_sponsors sponsors displacement_vector)))"

subsection \<open>Propagation\<close>

text \<open>
  The state of the propagation loop: the queue \<open>original_sponsors\<close> of rows with a grid
  index in the fourth slot, the array \<open>sponsor_history\<close> and the output \<open>new_matrix\<close>.
\<close>

type_synonym pstate = "entry list \<times> int list \<times> position list"

text \<open>The inner loop \<^verbatim>\<open>while len(neighbors) > 0\<close>.\<close>

fun visit_neighbors ::
  "position list \<Rightarrow> int \<Rightarrow> int \<Rightarrow> entry \<Rightarrow> entry list \<Rightarrow> pstate \<Rightarrow> error + pstate" where
  "visit_neighbors original_cube voxel_spacing stiffness_coef use_sponsor [] s = Inr s"
| "visit_neighbors original_cube voxel_spacing stiffness_coef use_sponsor (use_neighbor # neighbors)
       (original_sponsors, sponsor_history, new_matrix) =
     (case find_index (fst use_neighbor) original_cube of
        None \<Rightarrow> Inl IndexError
      | Some neighbor_position \<Rightarrow>
          (let sponsor_history' = sponsor_history @ [int neighbor_position] in
           case deform_neighbour use_sponsor use_neighbor voxel_spacing stiffness_coef of
             None \<Rightarrow>
               visit_neighbors original_cube voxel_spacing stiffness_coef use_sponsor neighbors
                 (original_sponsors, sponsor_history', new_matrix)
           | Some moved \<Rightarrow>
               visit_neighbors original_cube voxel_spacing stiffness_coef use_sponsor neighbors
                 (original_sponsors @ [(fst moved, int neighbor_position)], sponsor_history',
                  new_matrix[neighbor_position := fst moved])))"

text \<open>
  One pass of the body of \<^verbatim>\<open>while len(original_sponsors) > 0\<close>: the first sponsor
  is taken off the queue, its neighbours are found from its position in the original
  grid, and each is examined against the sponsor's displaced position. The loop runs the
  body on a queue that is not empty only; the first equation makes the function total.
\<close>

fun deform_step :: "position list \<Rightarrow> int \<Rightarrow> int \<Rightarrow> pstate \<Rightarrow> error + pstate" where
  "deform_step original_cube voxel_spacing stiffness_coef ([], sponsor_history, new_matrix) =
     Inr ([], sponsor_history, new_matrix)"
| "deform_step original_cube voxel_spacing stiffness_coef
       (use_sponsor # original_sponsors, sponsor_history, new_matrix) =
     and_then (np_row original_cube (snd use_sponsor))
     (\<lambda>sponsor. and_then (find_neighbors sponsor original_cube sponsor_history voxel_spacing False)
     (\<lambda>neighbors. visit_neighbors original_cube voxel_spacing stiffness_coef use_sponsor neighbors
                     (original_sponsors, sponsor_history, new_matrix)))"

text \<open>
  The loop itself. \<open>None\<close> is a loop that never ends, \<open>Some (Inl e)\<close> an exception,
  \<open>Some (Inr s)\<close> the state in which the queue is empty.
\<close>

partial_function (option) deform_loop ::
  "position list \<Rightarrow> int \<Rightarrow> int \<Rightarrow> pstate \<Rightarrow> (error + pstate) option" where
  "deform_loop original_cube voxel_spacing stiffness_coef s =
     (if fst s = [] then Some (Inr s)
      else case deform_step original_cube voxel_spacing stiffness_coef s of
             Inl e \<Rightarrow> Some (Inl e)
           | Inr s' \<Rightarrow> deform_loop original_cube voxel_spacing stiffness_coef s')"

text \<open>\<^verbatim>\<open>for el in original_sponsors: new_matrix[el[3]] = el[:3]\<close>\<close>

fun write_sponsors :: "entry list \<Rightarrow> position list \<Rightarrow> error + position list" where
  "write_sponsors [] new_matrix = Inr new_matrix"
| "write_sponsors (el # els) new_matrix =
     and_then (np_set_row new_matrix (snd el) (fst el)) (write_sponsors els)"

text \<open>
  Lines 16 to 29 of \<open>deform\<close>: the sponsor region, the history made of its fourth
  column, and the copy of the grid with the region's positions written in.
\<close>

definition deform_init ::
  "position \<Rightarrow> int \<Rightarrow> position \<Rightarrow> position list \<Rightarrow> int \<Rightarrow> error + pstate" where
  "deform_init disp_src disp_area disp_vector original_cube voxel_spacing =
     (let disp_dst = padd disp_src disp_vector in
      and_then (find_original_sponsors disp_dst disp_src original_cube voxel_spacing disp_area)
      (\<lambda>original_sponsors.
         let sponsor_history = map snd original_sponsors in
         and_then (write_sponsors original_sponsors original_cube)
         (\<lambda>new_matrix. Inr (original_sponsors, sponsor_history, new_matrix))))"

definition deform ::
  "position \<Rightarrow> int \<Rightarrow> position \<Rightarrow> position list \<Rightarrow> int \<Rightarrow> int \<Rightarrow> (error + position list) option" where
  "deform disp_src disp_area disp_vector original_cube voxel_spacing stiffness_coef =
     (case deform_init disp_src disp_area disp_vector original_cube voxel_spacing of
        Inl e \<Rightarrow> Some (Inl e)
      | Inr s \<Rightarrow>
          map_option (map_sum id (\<lambda>s'. snd (snd s')))
            (deform_loop original_cube voxel_spacing stiffness_coef s))"

subsection \<open>Notions used to state the properties\<close>

text \<open>
  The states the propagation loop passes through from a state \<open>s\<close>: \<open>s\<close> itself, and
  the state after one more pass of the loop body from a state whose queue is not empty.
\<close>

inductive reach :: "position list \<Rightarrow> int \<Rightarrow> int \<Rightarrow> pstate \<Rightarrow> pstate \<Rightarrow> bool"
  for original_cube voxel_spacing stiffness_coef s where
  reach_start: "reach original_cube voxel_spacing stiffness_coef s s"
| reach_step:
    "reach original_cube voxel_spacing stiffness_coef s t \<Longrightarrow> fst t \<noteq> [] \<Longrightarrow>
     deform_step original_cube voxel_spacing stiffness_coef t = Inr u \<Longrightarrow>
     reach original_cube voxel_spacing stiffness_coef s u"

code_pred reach .

text \<open>
  A neighbour is fresh for a history when its position is in the grid and the index of
  that position is not in the history.
\<close>

definition fresh :: "position list \<Rightarrow> int list \<Rightarrow> entry \<Rightarrow> bool" where
  "fresh original_cube sponsor_history nb =
     (case find_index (fst nb) original_cube of
        None \<Rightarrow> False
      | Some i \<Rightarrow> int i \<notin> set sponsor_history)"

text \<open>The grid indices that are not in the history yet.\<close>

definition unvisited :: "position list \<Rightarrow> int list \<Rightarrow> nat set" where
  "unvisited original_cube sponsor_history =
     {i. i < length original_cube \<and> int i \<notin> set sponsor_history}"

text \<open>
  The order in which the loop state decreases: fewer unvisited indices, or as many and a
  shorter queue.
\<close>

definition loop_rel :: "position list \<Rightarrow> (pstate \<times> pstate) set" where
  "loop_rel original_cube =
     inv_image (less_than <*lex*> less_than)
       (\<lambda>s. (card (unvisited original_cube (fst (snd s))), length (fst s)))"

text \<open>
  A grid is closed under neighbours for a spacing when every position that
  \<open>find_neighbors\<close> looks up from a row of the grid is a row of the grid: a lattice
  of side \<open>N\<close> with that spacing is. The queue of a state is valid when the fourth slot
  of every entry is an index of the grid.
\<close>

definition neighbour_closed :: "position list \<Rightarrow> int \<Rightarrow> bool" where
  "neighbour_closed original_cube step =
     (let side = side_length (length original_cube) step in
      list_all (\<lambda>(x, y, z).
        (x + step < side \<longrightarrow> (x + step, y, z) \<in> set original_cube) \<and>
        (x - step \<ge> 0 \<longrightarrow> (x - step, y, z) \<in> set original_cube) \<and>
        (y + step < side \<longrightarrow> (x, y + step, z) \<in> set original_cube) \<and>
        (y - step \<ge> 0 \<longrightarrow> (x, y - step, z) \<in> set original_cube) \<and>
        (z - step \<ge> 0 \<longrightarrow> (x, y, z - step) \<in> set original_cube) \<and>
        (z + step < side \<longrightarrow> (x, y, z + step) \<in> set original_cube)) original_cube)"

definition queue_valid :: "position list \<Rightarrow> pstate \<Rightarrow> bool" where
  "queue_valid original_cube s =
     list_all (\<lambda>el. 0 \<le> snd el \<and> snd el < int (length original_cube)) (fst s)"

text \<open>
  The state after \<open>n\<close> passes of the loop body from a state \<open>s\<close>; \<open>None\<close> when the
  loop has ended before, with an empty queue or with an exception.
\<close>

fun after_passes :: "position list \<Rightarrow> int \<Rightarrow> int \<Rightarrow> pstate \<Rightarrow> nat \<Rightarrow> pstate option" where
  "after_passes original_cube voxel_spacing stiffness_coef s 0 = Some s"
| "after_passes original_cube voxel_spacing stiffness_coef s (Suc n) =
     (case after_passes original_cube voxel_spacing stiffness_coef s n of
        None \<Rightarrow> None
      | Some t \<Rightarrow>
          (if fst t = [] then None
           else case deform_step original_cube voxel_spacing stiffness_coef t of
                  Inl e \<Rightarrow> None
                | Inr u \<Rightarrow> Some u))"

text \<open>
  The list \<open>neighbors\<close> of the pass that starts in a state: what \<open>find_neighbors\<close>
  returns for the sponsor at the head of the queue and the history of that state. The
  inner loop pops each of them, looks its index up and hands it to \<open>deform_neighbour\<close>.
\<close>

definition pass_neighbors :: "position list \<Rightarrow> int \<Rightarrow> pstate \<Rightarrow> entry list" where
  "pass_neighbors original_cube voxel_spacing s =
     (case fst s of
        [] \<Rightarrow> []
      | use_sponsor # rest \<Rightarrow>
          (case np_row original_cube (snd use_sponsor) of
             Inl e \<Rightarrow> []
           | Inr sponsor \<Rightarrow>
               (case find_neighbors sponsor original_cube (fst (snd s)) voxel_spacing False of
                  Inl e \<Rightarrow> []
                | Inr neighbors \<Rightarrow> neighbors)))"

text \<open>The grid indices of a list of neighbours, in order.\<close>

definition neighbor_indices :: "position list \<Rightarrow> entry list \<Rightarrow> int list" where
  "neighbor_indices original_cube neighbors =
     concat (map (\<lambda>nb. case find_index (fst nb) original_cube of
                          None \<Rightarrow> []
                        | Some i \<Rightarrow> [int i]) neighbors)"

text \<open>
  In the pass that starts in state \<open>s\<close>, the sponsor \<open>use_sponsor\<close> is taken off the
  queue and \<open>use_neighbor\<close>, at grid index \<open>neighbor_position\<close>, is one of the
  neighbours examined against it.
\<close>

definition examines :: "position list \<Rightarrow> int \<Rightarrow> pstate \<Rightarrow> entry \<Rightarrow> entry \<Rightarrow> nat \<Rightarrow> bool" where
  "examines original_cube voxel_spacing s use_sponsor use_neighbor neighbor_position =
     (fst s \<noteq> [] \<and> use_sponsor = hd (fst s) \<and>
      use_neighbor \<in> set (pass_neighbors original_cube voxel_spacing s) \<and>
      find_index (fst use_neighbor) original_cube = Some neighbor_position)"

text \<open>
  The value of a coordinate \<open>x\<close> after \<^verbatim>\<open>if c1: x = v1\<close>, \<^verbatim>\<open>elif c2: x = v2\<close>, and
  the value a constraint function returns for a candidate whose position has been
  adjusted: the sentinel when the adjusted position is the candidate's own, the adjusted
  position with the candidate's fourth slot otherwise.
\<close>

definition assigned :: "bool \<Rightarrow> int \<Rightarrow> bool \<Rightarrow> int \<Rightarrow> int \<Rightarrow> int" where
  "assigned c1 v1 c2 v2 x = (if c1 then v1 else if c2 then v2 else x)"

definition returned :: "entry \<Rightarrow> position \<Rightarrow> entry option" where
  "returned candidate adjusted =
     (if adjusted = fst candidate then None else Some (adjusted, snd candidate))"

text \<open>The lattice of side \<open>n\<close> with a given spacing, in x-major order.\<close>

definition lattice :: "nat \<Rightarrow> int \<Rightarrow> position list" where
  "lattice n step =
     concat (map (\<lambda>a. concat (map (\<lambda>b. map (\<lambda>c. (int a * step, int b * step, int c * step))
       [0..<n]) [0..<n])) [0..<n])"

text \<open>Two lattices with unit spacing, of side 2 and of side 3, written out.\<close>

definition cube2 :: "position list" where
  "cube2 = [(0, 0, 0), (0, 0, 1), (0, 1, 0), (0, 1, 1), (1, 0, 0), (1, 0, 1), (1, 1, 0), (1, 1, 1)]"

definition cube3 :: "position list" where
  "cube3 =
     [(0, 0, 0), (0, 0, 1), (0, 0, 2), (0, 1, 0), (0, 1, 1), (0, 1, 2), (0, 2, 0), (0, 2,
      1), (0, 2, 2), (1, 0, 0), (1, 0, 1), (1, 0, 2), (1, 1, 0), (1, 1, 1), (1, 1, 2), (1,
      2, 0), (1, 2, 1), (1, 2, 2), (2, 0, 0), (2, 0, 1), (2, 0, 2), (2, 1, 0), (2, 1, 1),
      (2, 1, 2), (2, 2, 0), (2, 2, 1), (2, 2, 2)]"

section \<open>Properties\<close>

subsection \<open>The side length\<close>

lemma root3_cube: "root 3 (x ^ 3) = (x::real)"
  by (rule odd_real_root_power_cancel) simp

lemma side_length_eqI:
  assumes "(m - 1) ^ 3 < int count * step ^ 3" and "int count * step ^ 3 \<le> m ^ 3"
  shows "side_length count step = m"
proof -
  let ?r = "root 3 (real count) * real_of_int step"
  have r: "?r = root 3 (real_of_int (int count * step ^ 3))"
    by (simp add: real_root_mult root3_cube)
  have "real_of_int ((m - 1) ^ 3) < real_of_int (int count * step ^ 3)"
    using assms(1) by (simp only: of_int_less_iff)
  then have "root 3 (real_of_int ((m - 1) ^ 3)) < ?r"
    unfolding r by (simp del: of_int_mult of_int_power)
  then have lo: "real_of_int m - 1 < ?r"
    using root3_cube [of "real_of_int m - 1"] by simp
  have "real_of_int (int count * step ^ 3) \<le> real_of_int (m ^ 3)"
    using assms(2) by (simp only: of_int_le_iff)
  then have "?r \<le> root 3 (real_of_int (m ^ 3))"
    unfolding r by (simp del: of_int_mult of_int_power)
  then have hi: "?r \<le> real_of_int m"
    using root3_cube [of "real_of_int m"] by simp
  show ?thesis
    unfolding side_length_def using lo hi by (simp add: ceiling_eq_iff)
qed

lemma side_length_8_1: "side_length 8 1 = 2"
  by (rule side_length_eqI) simp_all

lemma side_length_27_m1: "side_length 27 (- 1) = - 3"
  by (rule side_length_eqI) simp_all

subsection \<open>Lookup and neighbour enumeration\<close>

lemma find_index_Some: "find_index v xs = Some i \<Longrightarrow> i < length xs \<and> xs ! i = v"
proof (induction xs arbitrary: i)
  case Nil
  then show ?case by simp
next
  case (Cons p ps)
  show ?case
  proof (cases "p = v")
    case True
    with Cons.prems show ?thesis by simp
  next
    case False
    with Cons.prems obtain j where j: "find_index v ps = Some j" and i: "i = Suc j"
      by auto
    from Cons.IH [OF j] i show ?thesis by simp
  qed
qed

lemma find_index_None: "find_index v xs = None \<longleftrightarrow> v \<notin> set xs"
  by (induction xs) auto

lemma find_index_inj:
  "find_index v xs = Some i \<Longrightarrow> find_index w xs = Some i \<Longrightarrow> v = w"
  using find_index_Some by blast

lemma find_index_nth:
  "find_index v xs = Some i \<Longrightarrow> find_index (xs ! i) xs = Some i"
  using find_index_Some by blast

lemma np_row_index:
  "find_index v xs = Some i \<Longrightarrow> np_row xs (int i) = Inr v"
  using find_index_Some [of v xs i] by (simp add: np_row_def)

lemma add_neighbor_cases:
  assumes "add_neighbor inside nb cube h acc = Inr acc'"
  shows "acc' = acc \<or> (acc' = acc @ [nb] \<and> inside \<and> fresh cube h nb)"
  using assms by (auto simp: add_neighbor_def fresh_def split: if_splits option.splits)

lemma add_neighbor_distinct:
  assumes "add_neighbor inside nb cube h acc = Inr acc'"
    and "distinct (map fst acc)" and "fst ` set acc \<subseteq> S" and "fst nb \<notin> S"
  shows "distinct (map fst acc') \<and> fst ` set acc' \<subseteq> insert (fst nb) S"
proof -
  from add_neighbor_cases [OF assms(1)]
  consider "acc' = acc" | "acc' = acc @ [nb]" by blast
  then show ?thesis
  proof cases
    case 1
    with assms show ?thesis by auto
  next
    case 2
    from assms(3,4) have "fst nb \<notin> fst ` set acc" by blast
    with 2 assms(2,3) show ?thesis by auto
  qed
qed

lemma find_neighbors_distinct:
  assumes "find_neighbors p cube h step surface_only = Inr nbs" and "step \<noteq> 0"
  shows "distinct (map fst nbs)"
proof -
  obtain x y z where p: "p = (x, y, z)" by (cases p) auto
  let ?side = "side_length (length cube) step"
  from assms(1) obtain n0 n1 n2 n3 where
    a0: "add_neighbor (x + step < ?side) ((x + step, y, z), 0) cube h [] = Inr n0" and
    a1: "add_neighbor (x - step \<ge> 0) ((x - step, y, z), 1) cube h n0 = Inr n1" and
    a2: "add_neighbor (y + step < ?side) ((x, y + step, z), 2) cube h n1 = Inr n2" and
    a3: "add_neighbor (y - step \<ge> 0) ((x, y - step, z), 3) cube h n2 = Inr n3" and
    rest: "surface_only \<and> nbs = n3 \<or>
       (\<exists>n4. add_neighbor (z - step \<ge> 0) ((x, y, z - step), 4) cube h n3 = Inr n4 \<and>
             add_neighbor (z + step < ?side) ((x, y, z + step), 5) cube h n4 = Inr nbs)"
    unfolding p by (auto simp: and_then_def Let_def split: sum.splits if_splits)
  from add_neighbor_distinct [OF a0, of "{}"]
  have d0: "distinct (map fst n0)" "fst ` set n0 \<subseteq> {(x + step, y, z)}" by auto
  from add_neighbor_distinct [OF a1 d0] assms(2)
  have d1: "distinct (map fst n1)" "fst ` set n1 \<subseteq> {(x - step, y, z), (x + step, y, z)}" by auto
  from add_neighbor_distinct [OF a2 d1] assms(2)
  have d2: "distinct (map fst n2)"
    "fst ` set n2 \<subseteq> {(x, y + step, z), (x - step, y, z), (x + step, y, z)}" by auto
  from add_neighbor_distinct [OF a3 d2] assms(2)
  have d3: "distinct (map fst n3)"
    "fst ` set n3 \<subseteq> {(x, y - step, z), (x, y + step, z), (x - step, y, z), (x + step, y, z)}"
    by auto
  from rest show ?thesis
  proof
    assume "surface_only \<and> nbs = n3"
    with d3 show ?thesis by simp
  next
    assume "\<exists>n4. add_neighbor (z - step \<ge> 0) ((x, y, z - step), 4) cube h n3 = Inr n4 \<and>
             add_neighbor (z + step < ?side) ((x, y, z + step), 5) cube h n4 = Inr nbs"
    then obtain n4 where
      a4: "add_neighbor (z - step \<ge> 0) ((x, y, z - step), 4) cube h n3 = Inr n4" and
      a5: "add_neighbor (z + step < ?side) ((x, y, z + step), 5) cube h n4 = Inr nbs" by blast
    from add_neighbor_distinct [OF a4 d3] assms(2)
    have d4: "distinct (map fst n4)"
      "fst ` set n4 \<subseteq> {(x, y, z - step), (x, y - step, z), (x, y + step, z),
         (x - step, y, z), (x + step, y, z)}" by auto
    from add_neighbor_distinct [OF a5 d4] assms(2)
    show ?thesis by auto
  qed
qed

lemma find_neighbors_fresh:
  assumes "find_neighbors p cube h step surface_only = Inr nbs"
  shows "\<forall>nb\<in>set nbs. fresh cube h nb"
proof -
  obtain x y z where p: "p = (x, y, z)" by (cases p) auto
  have step: "\<And>inside nb acc acc'. add_neighbor inside nb cube h acc = Inr acc' \<Longrightarrow>
     \<forall>a\<in>set acc. fresh cube h a \<Longrightarrow> \<forall>a\<in>set acc'. fresh cube h a"
    using add_neighbor_cases by fastforce
  show ?thesis
    using assms unfolding p
    by (auto simp: and_then_def Let_def split: sum.splits if_splits dest!: step)
qed

subsection \<open>One pass of the propagation loop\<close>

lemma visit_neighbors_props:
  assumes "visit_neighbors cube step k sp nbs (q, h, m) = Inr (q', h', m')"
  shows "\<exists>is new. map (\<lambda>nb. find_index (fst nb) cube) nbs = map Some is \<and>
           h' = h @ map int is \<and> q' = q @ new \<and> snd ` set new \<subseteq> int ` set is \<and>
           length m' = length m \<and>
           (\<forall>j. m' ! j \<noteq> m ! j \<longrightarrow> int j \<in> snd ` set new) \<and>
           (\<forall>j. j \<notin> set is \<longrightarrow> m' ! j = m ! j)"
  using assms
proof (induction nbs arbitrary: q h m)
  case Nil
  then show ?case by simp
next
  case (Cons nb nbs)
  from Cons.prems obtain i where i: "find_index (fst nb) cube = Some i"
    by (auto split: option.splits)
  show ?case
  proof (cases "deform_neighbour sp nb step k")
    case None
    with Cons.prems i
    have "visit_neighbors cube step k sp nbs (q, h @ [int i], m) = Inr (q', h', m')"
      by simp
    from Cons.IH [OF this] obtain "is" new where
      "map (\<lambda>nb. find_index (fst nb) cube) nbs = map Some is"
      "h' = (h @ [int i]) @ map int is" "q' = q @ new" "snd ` set new \<subseteq> int ` set is"
      "length m' = length m" "\<forall>j. m' ! j \<noteq> m ! j \<longrightarrow> int j \<in> snd ` set new"
      "\<forall>j. j \<notin> set is \<longrightarrow> m' ! j = m ! j"
      by blast
    with i show ?thesis
      by (intro exI [of _ "i # is"] exI [of _ new]) auto
  next
    case (Some moved)
    let ?m1 = "m[i := fst moved]"
    from Some Cons.prems i
    have "visit_neighbors cube step k sp nbs (q @ [(fst moved, int i)], h @ [int i], ?m1)
            = Inr (q', h', m')"
      by simp
    from Cons.IH [OF this] obtain "is" new where r:
      "map (\<lambda>nb. find_index (fst nb) cube) nbs = map Some is"
      "h' = (h @ [int i]) @ map int is" "q' = (q @ [(fst moved, int i)]) @ new"
      "snd ` set new \<subseteq> int ` set is"
      "length m' = length ?m1" "\<forall>j. m' ! j \<noteq> ?m1 ! j \<longrightarrow> int j \<in> snd ` set new"
      "\<forall>j. j \<notin> set is \<longrightarrow> m' ! j = ?m1 ! j"
      by blast
    have w: "\<And>j. j \<noteq> i \<Longrightarrow> ?m1 ! j = m ! j" by simp
    have "\<forall>j. m' ! j \<noteq> m ! j \<longrightarrow> int j \<in> snd ` set ((fst moved, int i) # new)"
    proof (intro allI impI)
      fix j assume d: "m' ! j \<noteq> m ! j"
      show "int j \<in> snd ` set ((fst moved, int i) # new)"
      proof (cases "j = i")
        case True
        then show ?thesis by simp
      next
        case False
        with d w have "m' ! j \<noteq> ?m1 ! j" by simp
        with r(6) show ?thesis by simp
      qed
    qed
    moreover have "\<forall>j. j \<notin> set (i # is) \<longrightarrow> m' ! j = m ! j"
      using r(7) w by simp
    moreover have "snd ` set ((fst moved, int i) # new) \<subseteq> int ` set (i # is)"
      using r(4) by auto
    ultimately show ?thesis
      using i r(1,2,3,5)
      by (intro exI [of _ "i # is"] exI [of _ "(fst moved, int i) # new"]) simp
  qed
qed

lemma indices_distinct:
  assumes "map (\<lambda>nb. find_index (fst nb) cube) nbs = map Some is"
    and "distinct (map fst nbs)"
  shows "distinct is"
proof -
  let ?f = "\<lambda>p. find_index p cube"
  have eq: "map ?f (map fst nbs) = map Some is"
    using assms(1) by (simp add: comp_def)
  have some: "\<And>p. p \<in> set (map fst nbs) \<Longrightarrow> \<exists>i. ?f p = Some i"
  proof -
    fix p assume "p \<in> set (map fst nbs)"
    then have "?f p \<in> set (map ?f (map fst nbs))" by (simp only: set_map) blast
    with eq show "\<exists>i. ?f p = Some i" by auto
  qed
  have "inj_on ?f (set (map fst nbs))"
  proof (rule inj_onI)
    fix p p' assume "p \<in> set (map fst nbs)" "p' \<in> set (map fst nbs)" "?f p = ?f p'"
    with some [of p] find_index_inj show "p = p'" by metis
  qed
  with assms(2) have "distinct (map ?f (map fst nbs))"
    by (simp only: distinct_map simp_thms)
  with eq have "distinct (map Some is)" by simp
  then show ?thesis by (simp add: distinct_map)
qed

lemma indices_fresh:
  assumes "map (\<lambda>nb. find_index (fst nb) cube) nbs = map Some is"
    and "\<forall>nb\<in>set nbs. fresh cube h nb"
  shows "\<forall>i\<in>set is. i < length cube \<and> int i \<notin> set h"
proof
  fix i assume "i \<in> set is"
  then have "Some i \<in> set (map (\<lambda>nb. find_index (fst nb) cube) nbs)"
    using assms(1) by simp
  then obtain nb where nb: "nb \<in> set nbs" "find_index (fst nb) cube = Some i" by auto
  with assms(2) have "int i \<notin> set h" by (auto simp: fresh_def)
  with find_index_Some [OF nb(2)] show "i < length cube \<and> int i \<notin> set h" by simp
qed

lemma deform_step_props:
  assumes "deform_step cube step k (sp # q, h, m) = Inr (q', h', m')"
  shows "\<exists>is new. h' = h @ map int is \<and> q' = q @ new \<and> snd ` set new \<subseteq> int ` set is \<and>
           (\<forall>i\<in>set is. i < length cube \<and> int i \<notin> set h) \<and> (step \<noteq> 0 \<longrightarrow> distinct is) \<and>
           length m' = length m \<and>
           (\<forall>j. m' ! j \<noteq> m ! j \<longrightarrow> int j \<in> snd ` set new) \<and>
           (\<forall>j. j \<notin> set is \<longrightarrow> m' ! j = m ! j)"
proof -
  from assms obtain sponsor nbs where
    nbs: "find_neighbors sponsor cube h step False = Inr nbs" and
    v: "visit_neighbors cube step k sp nbs (q, h, m) = Inr (q', h', m')"
    by (auto simp: and_then_def split: sum.splits)
  from visit_neighbors_props [OF v] obtain "is" new where r:
    "map (\<lambda>nb. find_index (fst nb) cube) nbs = map Some is"
    "h' = h @ map int is" "q' = q @ new" "snd ` set new \<subseteq> int ` set is"
    "length m' = length m" "\<forall>j. m' ! j \<noteq> m ! j \<longrightarrow> int j \<in> snd ` set new"
    "\<forall>j. j \<notin> set is \<longrightarrow> m' ! j = m ! j"
    by blast
  have "\<forall>i\<in>set is. i < length cube \<and> int i \<notin> set h"
    using indices_fresh [OF r(1) find_neighbors_fresh [OF nbs]] .
  moreover have "step \<noteq> 0 \<longrightarrow> distinct is"
    using indices_distinct [OF r(1)] find_neighbors_distinct [OF nbs] by blast
  ultimately show ?thesis using r(2-) by blast
qed

subsection \<open>The propagation loop\<close>

lemma wf_loop_rel: "wf (loop_rel cube)"
  unfolding loop_rel_def by (intro wf_inv_image wf_lex_prod wf_less_than)

lemma finite_unvisited: "finite (unvisited cube h)"
  unfolding unvisited_def by simp

lemma unvisited_append:
  assumes "\<forall>i\<in>set is. i < length cube \<and> int i \<notin> set h" and "is \<noteq> []"
  shows "card (unvisited cube (h @ map int is)) < card (unvisited cube h)"
proof (rule psubset_card_mono [OF finite_unvisited])
  from assms(2) obtain i where i: "i \<in> set is" by (cases "is") auto
  with assms(1) have "i \<in> unvisited cube h" by (simp add: unvisited_def)
  moreover from i have "i \<notin> unvisited cube (h @ map int is)" by (simp add: unvisited_def)
  moreover have "unvisited cube (h @ map int is) \<subseteq> unvisited cube h"
    by (auto simp: unvisited_def)
  ultimately show "unvisited cube (h @ map int is) \<subset> unvisited cube h" by blast
qed

lemma deform_step_decreases:
  assumes "fst s \<noteq> []" and "deform_step cube step k s = Inr s'"
  shows "(s', s) \<in> loop_rel cube"
proof -
  obtain sp q h m where s: "s = (sp # q, h, m)"
    using assms(1) by (cases s, cases "fst s") auto
  obtain q' h' m' where s': "s' = (q', h', m')" by (cases s') auto
  from deform_step_props [OF assms(2) [unfolded s s']] obtain "is" new where r:
    "h' = h @ map int is" "q' = q @ new" "snd ` set new \<subseteq> int ` set is"
    "\<forall>i\<in>set is. i < length cube \<and> int i \<notin> set h"
    by blast
  show ?thesis
  proof (cases "is = []")
    case True
    with r(3) have "new = []" by simp
    with True r(1,2) show ?thesis by (simp add: loop_rel_def s s')
  next
    case False
    from unvisited_append [OF r(4) False] r(1) show ?thesis
      by (simp add: loop_rel_def s s')
  qed
qed

lemma loop_induct:
  assumes "\<And>s. (\<And>s'. fst s \<noteq> [] \<Longrightarrow> deform_step cube step k s = Inr s' \<Longrightarrow> P s') \<Longrightarrow> P s"
  shows "P s"
  using wf_loop_rel [of cube]
proof (induction s rule: wf_induct_rule)
  case (less s)
  show ?case
    by (rule assms) (rule less.IH, rule deform_step_decreases)
qed

lemma deform_loop_terminates:
  "\<exists>r. deform_loop cube step k s = Some r \<and> (case r of Inl e \<Rightarrow> True | Inr s' \<Rightarrow> fst s' = [])"
proof (induction s rule: loop_induct [where cube = cube and step = step and k = k])
  case (1 s)
  show ?case
  proof (cases "fst s = []")
    case True
    then show ?thesis by (subst deform_loop.simps) simp
  next
    case False
    show ?thesis
    proof (cases "deform_step cube step k s")
      case (Inl e)
      with False show ?thesis by (subst deform_loop.simps) simp
    next
      case (Inr s')
      from 1 [OF False Inr] Inr False show ?thesis
        by (subst deform_loop.simps) simp
    qed
  qed
qed

text \<open>A relation between the state at the start of the loop and the one at its end.\<close>

lemma loop_rule:
  assumes ret: "deform_loop cube step k s = Some (Inr t)"
    and refl: "\<And>s. R s s"
    and trans: "\<And>s u t. fst s \<noteq> [] \<Longrightarrow> deform_step cube step k s = Inr u \<Longrightarrow> R u t \<Longrightarrow> R s t"
  shows "R s t"
  using ret
proof (induction s rule: loop_induct [where cube = cube and step = step and k = k])
  case (1 s)
  show ?case
  proof (cases "fst s = []")
    case True
    with "1.prems" have "t = s" by (subst (asm) deform_loop.simps) simp
    with refl show ?thesis by simp
  next
    case False
    with "1.prems" obtain u where u: "deform_step cube step k s = Inr u"
      and l: "deform_loop cube step k u = Some (Inr t)"
      by (subst (asm) deform_loop.simps) (auto split: sum.splits)
    from trans [OF False u "1.IH" [OF False u l]] show ?thesis .
  qed
qed

subsection \<open>The sponsor region\<close>

lemma sponsor_layers_Table:
  "\<exists>e. sponsor_layers (Suc n) cube step (Table rows) out h = Inl e"
  by (auto simp: and_then_def np_append_layer_def split: sum.splits prod.splits)

lemma sponsor_layers_twice:
  "\<exists>e. sponsor_layers (Suc (Suc n)) cube step (Row r) out h = Inl e"
proof (cases "collect_layer cube step out [] h")
  case (Inl e)
  then show ?thesis by (simp add: and_then_def)
next
  case (Inr p)
  obtain st h' where p: "p = (st, h')" by (cases p) auto
  show ?thesis
  proof (cases "st = []")
    case True
    with Inr p show ?thesis by (simp add: and_then_def np_append_layer_def)
  next
    case False
    from sponsor_layers_Table [of n cube step "st @ [r]" st h']
    obtain e where "sponsor_layers (Suc n) cube step (Table (st @ [r])) st h' = Inl e" ..
    moreover have "sponsor_layers (Suc (Suc n)) cube step (Row r) out h =
        sponsor_layers (Suc n) cube step (Table (st @ [r])) st h'"
      using Inr p False
      by (subst sponsor_layers.simps(2))
        (simp add: and_then_def np_append_layer_def del: sponsor_layers.simps)
    ultimately show ?thesis by simp
  qed
qed

lemma find_original_sponsors_nonpositive:
  assumes "disp_area \<le> 0"
  shows "find_original_sponsors dst src cube step disp_area = Inl IndexError"
  using assms
  by (simp add: find_original_sponsors_def and_then_def translate_sponsors_def Let_def
      split: option.splits)

lemma find_original_sponsors_two:
  assumes "2 \<le> disp_area"
  shows "\<exists>e. find_original_sponsors dst src cube step disp_area = Inl e"
proof -
  from assms have "2 \<le> nat disp_area" by simp
  then obtain n where n: "nat disp_area = Suc (Suc n)"
    by (metis add_2_eq_Suc nat_le_iff_add)
  show ?thesis
  proof (cases "find_index src cube")
    case None
    then show ?thesis by (simp add: find_original_sponsors_def)
  next
    case (Some i)
    from sponsor_layers_twice [of n cube step "(dst, int i)" "[(dst, int i)]" "[int i]"]
    obtain e where "sponsor_layers (Suc (Suc n)) cube step (Row (dst, int i))
       [(dst, int i)] [int i] = Inl e" ..
    with Some n show ?thesis
      by (simp add: find_original_sponsors_def and_then_def Let_def del: sponsor_layers.simps)
  qed
qed

lemma find_original_sponsors_missing:
  assumes "find_index src cube = None"
  shows "find_original_sponsors dst src cube step disp_area = Inl IndexError"
  using assms by (simp add: find_original_sponsors_def)


lemma add_neighbor_visited:
  assumes "find_index (fst nb) cube = Some i" and "int i \<in> set h"
  shows "add_neighbor inside nb cube h acc = Inr acc"
  using assms by (simp add: add_neighbor_def)

lemma find_neighbors_step0:
  assumes "find_index p cube = Some i" and "int i \<in> set h"
  shows "find_neighbors p cube h 0 surface_only = Inr []"
proof -
  obtain x y z where p: "p = (x, y, z)" by (cases p) auto
  have a: "\<And>inside c acc. add_neighbor inside ((x, y, z), c) cube h acc = Inr acc"
    using assms unfolding p by (simp add: add_neighbor_visited)
  show ?thesis unfolding p by (simp add: a and_then_def)
qed

lemma find_original_sponsors_step0:
  "\<exists>e. find_original_sponsors dst src cube 0 disp_area = Inl e"
proof -
  consider "disp_area \<le> 0" | "disp_area = 1" | "2 \<le> disp_area" by linarith
  then show ?thesis
  proof cases
    case 1
    then show ?thesis by (simp add: find_original_sponsors_nonpositive)
  next
    case 3
    then show ?thesis by (rule find_original_sponsors_two)
  next
    case 2
    show ?thesis
    proof (cases "find_index src cube")
      case None
      then show ?thesis by (simp add: find_original_sponsors_def)
    next
      case (Some i)
      have "find_neighbors src cube [int i] 0 True = Inr []"
        using Some by (rule find_neighbors_step0) simp
      then have "collect_layer cube 0 [(dst, int i)] [] [int i] = Inr ([], [int i])"
        using np_row_index [OF Some] by (simp add: and_then_def)
      then have "sponsor_layers (Suc 0) cube 0 (Row (dst, int i)) [(dst, int i)] [int i]
          = Inl ValueError"
        by (simp add: and_then_def np_append_layer_def)
      with Some 2 show ?thesis
        by (simp add: find_original_sponsors_def and_then_def Let_def del: sponsor_layers.simps)
    qed
  qed
qed

lemma index_all_indexed:
  assumes "index_all cube els h = Inr (els', h')"
  shows "\<forall>el\<in>set els'. \<exists>j. find_index (fst el) cube = Some j \<and> snd el = int j"
  using assms
proof (induction els arbitrary: h els' h')
  case Nil
  then show ?case by simp
next
  case (Cons el els)
  from Cons.prems obtain i where i: "find_index (fst el) cube = Some i"
    by (auto split: option.splits)
  with Cons.prems obtain els1 h1 where
    r: "index_all cube els (h @ [int i]) = Inr (els1, h1)" and
    e: "els' = (fst el, int i) # els1"
    by (auto simp: and_then_def split: sum.splits)
  from Cons.IH [OF r] i e show ?case by simp
qed

lemma collect_layer_indexed:
  assumes "collect_layer cube step out st h = Inr (st', h')"
    and "\<forall>el\<in>set st. \<exists>j. find_index (fst el) cube = Some j \<and> snd el = int j"
  shows "\<forall>el\<in>set st'. \<exists>j. find_index (fst el) cube = Some j \<and> snd el = int j"
  using assms
proof (induction out arbitrary: st h)
  case Nil
  then show ?case by simp
next
  case (Cons a out)
  from Cons.prems(1) obtain sponsor nbs st1 h1 where
    "index_all cube (st @ nbs) h = Inr (st1, h1)" and
    c: "collect_layer cube step out st1 h1 = Inr (st', h')"
    by (auto simp: and_then_def split: sum.splits)
  from Cons.IH [OF c index_all_indexed [OF this(1)]] show ?case .
qed

text \<open>The shape of every sponsor region that is returned.\<close>

lemma find_original_sponsors_region:
  assumes "find_original_sponsors dst src cube step disp_area = Inr region"
  shows "disp_area = 1 \<and> step \<noteq> 0 \<and>
    (\<exists>st i. find_index src cube = Some i \<and> st \<noteq> [] \<and>
       region = map (\<lambda>el. (padd (fst el) (psub dst src), snd el)) (st @ [(dst, int i)]) \<and>
       (\<forall>el\<in>set st. \<exists>j. find_index (fst el) cube = Some j \<and> snd el = int j))"
proof -
  have area: "disp_area = 1"
  proof (rule ccontr)
    assume "disp_area \<noteq> 1"
    then consider "disp_area \<le> 0" | "2 \<le> disp_area" by linarith
    then show False
      using assms find_original_sponsors_nonpositive [of disp_area dst src cube step]
        find_original_sponsors_two [of disp_area dst src cube step]
      by cases auto
  qed
  have step: "step \<noteq> 0"
    using assms find_original_sponsors_step0 [of dst src cube disp_area] by auto
  from assms obtain i where i: "find_index src cube = Some i"
    by (auto simp: find_original_sponsors_def split: option.splits)
  with assms area obtain sp where
    l: "sponsor_layers (Suc 0) cube step (Row (dst, int i)) [(dst, int i)] [int i] = Inr sp" and
    t: "translate_sponsors sp (psub dst src) = Inr region"
    by (auto simp: find_original_sponsors_def and_then_def Let_def
        simp del: sponsor_layers.simps split: sum.splits)
  from l obtain st h' where
    c: "collect_layer cube step [(dst, int i)] [] [int i] = Inr (st, h')" and
    a: "np_append_layer st (Row (dst, int i)) = Inr sp"
    by (auto simp: and_then_def split: sum.splits prod.splits)
  from a have st: "st \<noteq> []" and sp: "sp = Table (st @ [(dst, int i)])"
    by (auto simp: np_append_layer_def split: if_splits)
  from t sp have "region = map (\<lambda>el. (padd (fst el) (psub dst src), snd el)) (st @ [(dst, int i)])"
    by (simp add: translate_sponsors_def)
  moreover from collect_layer_indexed [OF c]
  have "\<forall>el\<in>set st. \<exists>j. find_index (fst el) cube = Some j \<and> snd el = int j" by simp
  ultimately show ?thesis using area step i st by blast
qed

lemma np_set_row_props:
  assumes "np_set_row m i p = Inr m'" and "0 \<le> i"
  shows "length m' = length m \<and> (\<forall>j. m' ! j \<noteq> m ! j \<longrightarrow> int j = i)"
  using assms by (auto simp: np_set_row_def Let_def nth_list_update split: if_splits)

lemma write_sponsors_props:
  assumes "write_sponsors els m = Inr m'" and "\<forall>el\<in>set els. 0 \<le> snd el"
  shows "length m' = length m \<and> (\<forall>j. m' ! j \<noteq> m ! j \<longrightarrow> int j \<in> snd ` set els)"
  using assms
proof (induction els arbitrary: m)
  case Nil
  then show ?case by simp
next
  case (Cons el els)
  from Cons.prems(1) obtain m1 where
    w: "np_set_row m (snd el) (fst el) = Inr m1" and r: "write_sponsors els m1 = Inr m'"
    by (auto simp: and_then_def split: sum.splits)
  from np_set_row_props [OF w] Cons.prems(2)
  have 1: "length m1 = length m" "\<forall>j. m1 ! j \<noteq> m ! j \<longrightarrow> int j = snd el" by auto
  from Cons.IH [OF r] Cons.prems(2)
  have 2: "length m' = length m1" "\<forall>j. m' ! j \<noteq> m1 ! j \<longrightarrow> int j \<in> snd ` set els" by auto
  have "\<forall>j. m' ! j \<noteq> m ! j \<longrightarrow> int j \<in> snd ` set (el # els)"
  proof (intro allI impI)
    fix j assume "m' ! j \<noteq> m ! j"
    then have "m' ! j \<noteq> m1 ! j \<or> m1 ! j \<noteq> m ! j" by auto
    with 1(2) 2(2) show "int j \<in> snd ` set (el # els)" by auto
  qed
  with 1(1) 2(1) show ?case by simp
qed

subsection \<open>Invariants of the propagation loop\<close>



lemma loop_length:
  assumes "deform_loop cube step k s = Some (Inr t)"
  shows "length (snd (snd t)) = length (snd (snd s))"
proof (rule loop_rule [OF assms])
  fix s u t :: pstate
  assume ne: "fst s \<noteq> []" and st: "deform_step cube step k s = Inr u"
    and ih: "length (snd (snd t)) = length (snd (snd u))"
  obtain sp q h m where s: "s = (sp # q, h, m)"
    using ne by (cases s, cases "fst s") auto
  obtain q' h' m' where u: "u = (q', h', m')" by (cases u) auto
  from deform_step_props [OF st [unfolded s u]] have "length m' = length m" by blast
  with ih show "length (snd (snd t)) = length (snd (snd s))" unfolding s u by simp
qed simp

lemma reach_after_step:
  assumes "reach cube step k u w" and "fst s \<noteq> []" and "deform_step cube step k s = Inr u"
  shows "reach cube step k s w"
  using assms(1)
proof (induction rule: reach.induct)
  case reach_start
  show ?case by (rule reach.reach_step [OF reach.reach_start assms(2,3)])
next
  case (reach_step t u')
  then show ?case by (blast intro: reach.reach_step)
qed

lemma loop_changes:
  assumes "deform_loop cube step k s = Some (Inr t)"
  shows "\<forall>j. snd (snd t) ! j \<noteq> snd (snd s) ! j \<longrightarrow>
           (\<exists>w. reach cube step k s w \<and> int j \<in> snd ` set (fst w))"
proof (rule loop_rule [OF assms])
  fix s :: pstate
  show "\<forall>j. snd (snd s) ! j \<noteq> snd (snd s) ! j \<longrightarrow>
           (\<exists>w. reach cube step k s w \<and> int j \<in> snd ` set (fst w))" by simp
next
  fix s u t :: pstate
  assume ne: "fst s \<noteq> []" and st: "deform_step cube step k s = Inr u"
    and ih: "\<forall>j. snd (snd t) ! j \<noteq> snd (snd u) ! j \<longrightarrow>
           (\<exists>w. reach cube step k u w \<and> int j \<in> snd ` set (fst w))"
  obtain sp q h m where s: "s = (sp # q, h, m)"
    using ne by (cases s, cases "fst s") auto
  obtain q' h' m' where u: "u = (q', h', m')" by (cases u) auto
  from deform_step_props [OF st [unfolded s u]] obtain new where r:
    "q' = q @ new" "\<forall>j. m' ! j \<noteq> m ! j \<longrightarrow> int j \<in> snd ` set new"
    by blast
  have su: "reach cube step k s u"
    by (rule reach_step [OF reach_start ne st])
  show "\<forall>j. snd (snd t) ! j \<noteq> snd (snd s) ! j \<longrightarrow>
           (\<exists>w. reach cube step k s w \<and> int j \<in> snd ` set (fst w))"
  proof (intro allI impI)
    fix j assume d: "snd (snd t) ! j \<noteq> snd (snd s) ! j"
    show "\<exists>w. reach cube step k s w \<and> int j \<in> snd ` set (fst w)"
    proof (cases "snd (snd t) ! j = snd (snd u) ! j")
      case True
      with d have "m' ! j \<noteq> m ! j" unfolding s u by simp
      with r have "int j \<in> snd ` set (fst u)" unfolding u by auto
      with su show ?thesis by blast
    next
      case False
      with ih obtain w where "reach cube step k u w" "int j \<in> snd ` set (fst w)" by blast
      with reach_after_step [OF this(1) ne st] show ?thesis by blast
    qed
  qed
qed


subsection \<open>Evaluation on the two lattices\<close>

lemma side_length_cube2: "n = 8 \<Longrightarrow> side_length n 1 = 2"
  using side_length_8_1 by simp

lemma side_length_cube3_neg: "n = 27 \<Longrightarrow> side_length n (- 1) = - 3"
  using side_length_27_m1 by simp

lemmas run_simps = deform_def deform_init_def find_original_sponsors_def padd_def psub_def
  and_then_def add_neighbor_def np_row_def np_set_row_def np_append_layer_def
  translate_sponsors_def deform_neighbour_def side_length_cube2 side_length_cube3_neg
  Let_def deform_loop.simps

subsection \<open>The constraint functions at concrete inputs\<close>

text \<open>
  Claim C1 (the code departs from it). The claim asks that each function clamps the offset
  on a perpendicular axis into \<open>[-stiffness, stiffness]\<close> around the sponsor's value on
  that axis. \<open>deform_top\<close> writes \<open>sponsor[1] + shear\<close> into the candidate's
  x coordinate when the x offset is above the range: with the sponsor at \<open>(-2, 0, 0)\<close>,
  the candidate at \<open>(1, 1, 0)\<close>, spacing \<open>1\<close> and stiffness \<open>0\<close> the result has
  x coordinate \<open>0\<close>, at offset \<open>2\<close> from the sponsor, where the claim gives \<open>-2\<close>.
  This call is made by \<open>deform (0, 0, 0) 1 (-3, 0, 0)\<close> on the lattice of side 2.
\<close>

theorem deform_top_wrong_axis:
  "deform_top ((- 2, 0, 0), 4) ((1, 1, 0), 2) 1 0 = Some ((0, 1, 0), 2)"
  by simp

subsection \<open>The sponsor region at concrete inputs\<close>

text \<open>
  Claim C2 (the code departs from it). The claim asks that every entry of the sponsor
  region is the voxel's grid position plus the displacement vector. The region is seeded
  with the destination of the source, and the vector is then added to every row, so the
  source is moved by twice the vector: on the lattice of side 2 with the source
  \<open>(0, 0, 0)\<close> displaced by \<open>(1, 0, 0)\<close>, the row of index \<open>0\<close> is \<open>(2, 0, 0)\<close>
  and not \<open>(1, 0, 0)\<close>, while the neighbours of indices \<open>4\<close> and \<open>2\<close> are moved by
  the vector once.
\<close>

theorem source_translated_twice:
  "find_original_sponsors (1, 0, 0) (0, 0, 0) cube2 1 1 =
     Inr [((2, 0, 0), 4), ((1, 1, 0), 2), ((2, 0, 0), 0)]"
  by (simp add: run_simps cube2_def)

text \<open>
  Claim C4 (the code departs from it). The claim asks that a zero displacement returns
  the input grid. \<open>deform_up\<close> tests \<open>candidate[2] - sponsor[2] > minimum\<close> where its
  siblings test \<open><\<close>, so with a positive stiffness every upper neighbour at its rest
  offset is pulled down: on the lattice of side 2 with spacing \<open>1\<close> and stiffness \<open>1\<close>
  the voxels of indices \<open>1\<close>, \<open>3\<close> and \<open>5\<close> move although the displacement is zero.
\<close>

theorem zero_displacement_moves_voxels:
  "deform (0, 0, 0) 1 (0, 0, 0) cube2 1 1 =
     Some (Inr [(0, 0, 0), (0, 0, 0), (0, 1, 0), (0, 1, 0), (1, 0, 0), (1, 0, 0), (1, 1, 0), (1, 1, 1)])"
  by (simp add: run_simps cube2_def)

text \<open>
  Claim C3 (the code departs from it). The claim asks that with \<open>influence_radius = 0\<close>
  the region is the source alone and \<open>deform\<close> returns a grid. With no layer appended
  the array of sponsors keeps its shape \<open>(4,)\<close>, and the translation
  \<^verbatim>\<open>original_sponsors[:, :3] += displacement_vector\<close> raises IndexError: for every
  request with radius \<open>0\<close>, \<open>deform\<close> raises IndexError.
\<close>

theorem deform_radius_zero_fails:
  "deform disp_src 0 disp_vector original_cube voxel_spacing stiffness_coef = Some (Inl IndexError)"
  by (simp add: deform_def deform_init_def and_then_def find_original_sponsors_nonpositive)

text \<open>
  Claim C8, as stated, fails: a negative spacing is not rejected. On the lattice of side 3
  with the source \<open>(0, 0, 0)\<close>, radius \<open>1\<close>, a zero displacement, spacing \<open>-1\<close>
  and stiffness \<open>0\<close>, \<open>deform\<close> returns a grid.
\<close>

theorem negative_spacing_accepted:
  "deform (0, 0, 0) 1 (0, 0, 0) cube3 (- 1) 0 = Some (Inr cube3)"
  by (simp add: run_simps cube3_def)

subsection \<open>Requests that fail\<close>

text \<open>
  Claim C10. For every \<open>influence_radius\<close> other than \<open>1\<close>,
  \<open>find_original_sponsors\<close> raises, and so does \<open>deform\<close>. With a radius of \<open>0\<close>
  or less no layer is appended, the array of sponsors stays one-dimensional and its
  translation raises IndexError; with a radius of \<open>2\<close> or more the loop over the layers
  raises, at the latest where the second layer is appended to a two-dimensional array.
\<close>

theorem radius_other_than_one_fails:
  assumes "disp_area \<noteq> 1"
  shows "(\<exists>e. find_original_sponsors displacement_dst disp_src original_cube voxel_spacing disp_area = Inl e) \<and>
         (\<exists>e. deform disp_src disp_area disp_vector original_cube voxel_spacing stiffness_coef = Some (Inl e)) \<and>
         (disp_area \<le> 0 \<longrightarrow>
            sponsor_layers (nat disp_area) original_cube voxel_spacing (Row r) outside_layer h = Inr (Row r) \<and>
            translate_sponsors (Row r) v = Inl IndexError) \<and>
         (2 \<le> disp_area \<longrightarrow>
            (\<exists>e. sponsor_layers (nat disp_area) original_cube voxel_spacing (Row r) outside_layer h = Inl e))"
proof -
  from assms consider "disp_area \<le> 0" | "2 \<le> disp_area" by linarith
  then have f: "\<And>dst. \<exists>e. find_original_sponsors dst disp_src original_cube voxel_spacing disp_area = Inl e"
    using find_original_sponsors_nonpositive find_original_sponsors_two by cases blast+
  from f [of "padd disp_src disp_vector"]
  have "\<exists>e. deform disp_src disp_area disp_vector original_cube voxel_spacing stiffness_coef = Some (Inl e)"
    by (auto simp: deform_def deform_init_def and_then_def Let_def)
  moreover have "disp_area \<le> 0 \<longrightarrow>
      sponsor_layers (nat disp_area) original_cube voxel_spacing (Row r) outside_layer h = Inr (Row r) \<and>
      translate_sponsors (Row r) v = Inl IndexError"
    by (simp add: translate_sponsors_def)
  moreover have "2 \<le> disp_area \<longrightarrow>
      (\<exists>e. sponsor_layers (nat disp_area) original_cube voxel_spacing (Row r) outside_layer h = Inl e)"
  proof
    assume "2 \<le> disp_area"
    then have "2 \<le> nat disp_area" by simp
    then obtain n where "nat disp_area = Suc (Suc n)"
      by (metis add_2_eq_Suc nat_le_iff_add)
    with sponsor_layers_twice [of n original_cube voxel_spacing r outside_layer h]
    show "\<exists>e. sponsor_layers (nat disp_area) original_cube voxel_spacing (Row r) outside_layer h = Inl e"
      by simp
  qed
  ultimately show ?thesis using f by blast
qed

theorem radius_other_than_one_fails_witness:
  "(\<exists>e. deform (0, 0, 0) 0 (1, 0, 0) cube2 1 0 = Some (Inl e)) \<and>
   translate_sponsors (Row ((1, 0, 0), 0)) (1, 0, 0) = Inl IndexError \<and>
   (\<exists>e. deform (0, 0, 0) 2 (1, 0, 0) cube2 1 0 = Some (Inl e)) \<and>
   (\<exists>e. sponsor_layers (nat 2) cube2 1 (Row ((1, 0, 0), 0)) [((1, 0, 0), 0)] [0] = Inl e)"
proof -
  have a: "(0::int) \<noteq> 1" and b: "(2::int) \<noteq> 1" by simp_all
  from radius_other_than_one_fails [OF a, of "(1, 0, 0)" "(0, 0, 0)" cube2 1 "(1, 0, 0)" 0
      "((1, 0, 0), 0)" "[((1, 0, 0), 0)]" "[0]" "(1, 0, 0)"]
    radius_other_than_one_fails [OF b, of "(1, 0, 0)" "(0, 0, 0)" cube2 1 "(1, 0, 0)" 0
      "((1, 0, 0), 0)" "[((1, 0, 0), 0)]" "[0]" "(1, 0, 0)"]
  show ?thesis by simp
qed

text \<open>
  Claim C8, amended. A request whose source position is not a row of the grid, whose
  radius is negative, or whose spacing is zero is rejected by \<open>find_original_sponsors\<close>,
  before the state of the propagation loop exists: \<open>deform_init\<close> and \<open>deform\<close>
  fail with the same exception. (A negative spacing is not checked.)
\<close>

theorem malformed_request_rejected:
  assumes "find_index disp_src original_cube = None \<or> disp_area < 0 \<or> voxel_spacing = 0"
  shows "\<exists>e. find_original_sponsors (padd disp_src disp_vector) disp_src original_cube
                 voxel_spacing disp_area = Inl e \<and>
              deform_init disp_src disp_area disp_vector original_cube voxel_spacing = Inl e \<and>
              deform disp_src disp_area disp_vector original_cube voxel_spacing stiffness_coef
                = Some (Inl e)"
proof -
  have "\<exists>e. find_original_sponsors (padd disp_src disp_vector) disp_src original_cube
                 voxel_spacing disp_area = Inl e"
    using assms find_original_sponsors_missing find_original_sponsors_nonpositive
      find_original_sponsors_step0
    by (metis less_imp_le)
  then show ?thesis
    by (auto simp: deform_def deform_init_def and_then_def Let_def)
qed

theorem malformed_request_rejected_witness:
  "(\<exists>e. deform (5, 5, 5) 1 (1, 0, 0) cube2 1 0 = Some (Inl e)) \<and>
   (\<exists>e. deform (0, 0, 0) (- 1) (1, 0, 0) cube2 1 0 = Some (Inl e)) \<and>
   (\<exists>e. deform (0, 0, 0) 1 (1, 0, 0) cube2 0 0 = Some (Inl e))"
proof -
  have a: "find_index (5, 5, 5) cube2 = None \<or> (1::int) < 0 \<or> (1::int) = 0"
    by (simp add: cube2_def)
  have b: "find_index (0, 0, 0) cube2 = None \<or> (- 1::int) < 0 \<or> (1::int) = 0" by simp
  have c: "find_index (0, 0, 0) cube2 = None \<or> (1::int) < 0 \<or> (0::int) = 0" by simp
  from malformed_request_rejected [OF a, of "(1, 0, 0)" 0]
    malformed_request_rejected [OF b, of "(1, 0, 0)" 0]
    malformed_request_rejected [OF c, of "(1, 0, 0)" 0]
  show ?thesis by blast
qed

subsection \<open>Every index is examined once\<close>



subsection \<open>What changes in the output\<close>

lemma deform_init_props:
  assumes "deform_init src area v cube step = Inr s"
  shows "length (snd (snd s)) = length cube \<and>
         (\<forall>j. snd (snd s) ! j \<noteq> cube ! j \<longrightarrow> int j \<in> snd ` set (fst s))"
proof -
  from assms obtain region m0 where
    f: "find_original_sponsors (padd src v) src cube step area = Inr region" and
    w: "write_sponsors region cube = Inr m0" and
    s: "s = (region, map snd region, m0)"
    by (auto simp: deform_init_def and_then_def Let_def split: sum.splits)
  from find_original_sponsors_region [OF f] obtain st i where
    r: "region = map (\<lambda>el. (padd (fst el) (psub (padd src v) src), snd el)) (st @ [(padd src v, int i)])"
    and st: "\<forall>el\<in>set st. \<exists>j. find_index (fst el) cube = Some j \<and> snd el = int j"
    by blast
  from st have "\<forall>el\<in>set (st @ [(padd src v, int i)]). 0 \<le> snd el" by auto
  then have "\<forall>el\<in>set region. 0 \<le> snd el" unfolding r by simp
  from write_sponsors_props [OF w this] s show ?thesis by simp
qed

text \<open>
  Claim C9. The model passes the input grid read-only, as the code does: \<open>deform\<close>
  writes only into the copy made at line 25. The output has the length of the input, and
  every index at which it differs from the input is the fourth slot of an entry of the
  queue in some state the loop passes through: the queue starts as the sponsor region,
  and an entry is appended to it exactly where a position is committed.
\<close>

theorem changed_only_where_sponsored:
  assumes "deform disp_src disp_area disp_vector original_cube voxel_spacing stiffness_coef
             = Some (Inr new_matrix)"
  shows "length new_matrix = length original_cube \<and>
         (\<exists>s. deform_init disp_src disp_area disp_vector original_cube voxel_spacing = Inr s \<and>
            (\<forall>i. new_matrix ! i \<noteq> original_cube ! i \<longrightarrow>
               (\<exists>u. reach original_cube voxel_spacing stiffness_coef s u \<and>
                    int i \<in> snd ` set (fst u))))"
proof -
  from assms obtain s r where
    i: "deform_init disp_src disp_area disp_vector original_cube voxel_spacing = Inr s" and
    lr: "deform_loop original_cube voxel_spacing stiffness_coef s = Some r" and
    m: "map_sum id (\<lambda>s'. snd (snd s')) r = Inr new_matrix"
    by (auto simp: deform_def split: sum.splits)
  from m obtain t where r: "r = Inr t" and n: "new_matrix = snd (snd t)"
    by (cases r) auto
  from lr r have l: "deform_loop original_cube voxel_spacing stiffness_coef s = Some (Inr t)"
    by simp
  from deform_init_props [OF i] have
    i1: "length (snd (snd s)) = length original_cube" and
    i2: "\<forall>j. snd (snd s) ! j \<noteq> original_cube ! j \<longrightarrow> int j \<in> snd ` set (fst s)"
    by simp_all
  have "\<forall>i. new_matrix ! i \<noteq> original_cube ! i \<longrightarrow>
      (\<exists>u. reach original_cube voxel_spacing stiffness_coef s u \<and> int i \<in> snd ` set (fst u))"
  proof (intro allI impI)
    fix i assume d: "new_matrix ! i \<noteq> original_cube ! i"
    show "\<exists>u. reach original_cube voxel_spacing stiffness_coef s u \<and> int i \<in> snd ` set (fst u)"
    proof (cases "snd (snd s) ! i = original_cube ! i")
      case True
      with d n have "snd (snd t) ! i \<noteq> snd (snd s) ! i" by simp
      with loop_changes [OF l] show ?thesis by blast
    next
      case False
      with i2 have "int i \<in> snd ` set (fst s)" by blast
      then show ?thesis using reach_start by blast
    qed
  qed
  with i i1 loop_length [OF l] n show ?thesis by simp
qed

theorem changed_only_where_sponsored_witness:
  "\<exists>s. deform_init (0, 0, 0) 1 (1, 0, 0) cube2 1 = Inr s \<and>
     (\<exists>u. reach cube2 1 0 s u \<and> 7 \<in> snd ` set (fst u))"
proof -
  have a: "deform (0, 0, 0) 1 (1, 0, 0) cube2 1 0 =
      Some (Inr [(2, 0, 0), (2, 0, 1), (1, 1, 0), (1, 1, 1), (2, 0, 0), (2, 0, 1), (2, 1, 0), (2, 1, 1)])"
    by (simp add: run_simps cube2_def)
  have b: "[(2, 0, 0), (2, 0, 1), (1, 1, 0), (1, 1, 1), (2, 0, 0), (2, 0, 1), (2, 1, 0), (2, 1, 1)] ! 7
      \<noteq> cube2 ! 7"
    by (simp add: cube2_def)
  from changed_only_where_sponsored [OF a] obtain s where
    s: "deform_init (0, 0, 0) 1 (1, 0, 0) cube2 1 = Inr s" and
    r: "\<forall>i. [(2, 0, 0), (2, 0, 1), (1, 1, 0), (1, 1, 1), (2, 0, 0), (2, 0, 1), (2, 1, 0), (2, 1, 1)] ! i
          \<noteq> cube2 ! i \<longrightarrow> (\<exists>u. reach cube2 1 0 s u \<and> int i \<in> snd ` set (fst u))"
    by blast
  from r b have "\<exists>u. reach cube2 1 0 s u \<and> int 7 \<in> snd ` set (fst u)" by blast
  with s show ?thesis by auto
qed

subsection \<open>The sentinel\<close>



subsection \<open>Grids closed under neighbours\<close>

lemma add_neighbor_total:
  assumes "inside \<Longrightarrow> fst nb \<in> set cube"
  shows "\<exists>acc'. add_neighbor inside nb cube h acc = Inr acc'"
proof (cases inside)
  case True
  with assms have "find_index (fst nb) cube \<noteq> None" by (simp add: find_index_None)
  with True show ?thesis by (auto simp: add_neighbor_def)
next
  case False
  then show ?thesis by (simp add: add_neighbor_def)
qed

lemma find_neighbors_total:
  assumes "neighbour_closed cube step" and "p \<in> set cube"
  shows "\<exists>nbs. find_neighbors p cube h step surface_only = Inr nbs"
proof -
  obtain x y z where p: "p = (x, y, z)" by (cases p) auto
  let ?side = "side_length (length cube) step"
  from assms have c:
    "x + step < ?side \<Longrightarrow> (x + step, y, z) \<in> set cube"
    "x - step \<ge> 0 \<Longrightarrow> (x - step, y, z) \<in> set cube"
    "y + step < ?side \<Longrightarrow> (x, y + step, z) \<in> set cube"
    "y - step \<ge> 0 \<Longrightarrow> (x, y - step, z) \<in> set cube"
    "z - step \<ge> 0 \<Longrightarrow> (x, y, z - step) \<in> set cube"
    "z + step < ?side \<Longrightarrow> (x, y, z + step) \<in> set cube"
    unfolding p neighbour_closed_def Let_def list_all_iff by auto
  obtain n0 where a0: "add_neighbor (x + step < ?side) ((x + step, y, z), 0) cube h [] = Inr n0"
    using add_neighbor_total [where inside = "x + step < ?side" and nb = "((x + step, y, z), 0)" and cube = cube] c(1) by auto
  obtain n1 where a1: "add_neighbor (x - step \<ge> 0) ((x - step, y, z), 1) cube h n0 = Inr n1"
    using add_neighbor_total [where inside = "x - step \<ge> 0" and nb = "((x - step, y, z), 1)" and cube = cube] c(2) by auto
  obtain n2 where a2: "add_neighbor (y + step < ?side) ((x, y + step, z), 2) cube h n1 = Inr n2"
    using add_neighbor_total [where inside = "y + step < ?side" and nb = "((x, y + step, z), 2)" and cube = cube] c(3) by auto
  obtain n3 where a3: "add_neighbor (y - step \<ge> 0) ((x, y - step, z), 3) cube h n2 = Inr n3"
    using add_neighbor_total [where inside = "y - step \<ge> 0" and nb = "((x, y - step, z), 3)" and cube = cube] c(4) by auto
  obtain n4 where a4: "add_neighbor (z - step \<ge> 0) ((x, y, z - step), 4) cube h n3 = Inr n4"
    using add_neighbor_total [where inside = "z - step \<ge> 0" and nb = "((x, y, z - step), 4)" and cube = cube] c(5) by auto
  obtain n5 where a5: "add_neighbor (z + step < ?side) ((x, y, z + step), 5) cube h n4 = Inr n5"
    using add_neighbor_total [where inside = "z + step < ?side" and nb = "((x, y, z + step), 5)" and cube = cube] c(6) by auto
  have "find_neighbors (x, y, z) cube h step surface_only = (if surface_only then Inr n3 else Inr n5)"
    unfolding find_neighbors.simps Let_def and_then_def a0 a1 a2 a3 a4 a5 sum.case ..
  then show ?thesis unfolding p by (cases surface_only) simp_all
qed

lemma visit_neighbors_total:
  assumes "\<forall>nb\<in>set nbs. fresh cube h0 nb"
  shows "\<exists>s'. visit_neighbors cube step k sp nbs s = Inr s'"
  using assms
proof (induction nbs arbitrary: s)
  case Nil
  show ?case by (rule exI [of _ s]) simp
next
  case (Cons nb nbs)
  obtain q h m where s: "s = (q, h, m)" by (cases s) auto
  from Cons.prems obtain i where i: "find_index (fst nb) cube = Some i"
    by (auto simp: fresh_def split: option.splits)
  from Cons.prems have r: "\<forall>nb\<in>set nbs. fresh cube h0 nb" by simp
  show ?case
  proof (cases "deform_neighbour sp nb step k")
    case None
    with i Cons.IH [OF r, of "(q, h @ [int i], m)"] show ?thesis unfolding s by simp
  next
    case (Some moved)
    with i Cons.IH [OF r, of "(q @ [(fst moved, int i)], h @ [int i], m[i := fst moved])"]
    show ?thesis unfolding s by simp
  qed
qed

lemma deform_step_total:
  assumes "neighbour_closed cube step" and "queue_valid cube (sp # q, h, m)"
  shows "\<exists>s'. deform_step cube step k (sp # q, h, m) = Inr s' \<and> queue_valid cube s'"
proof -
  from assms(2) have v: "0 \<le> snd sp" "snd sp < int (length cube)"
    by (simp_all add: queue_valid_def)
  then have row: "np_row cube (snd sp) = Inr (cube ! nat (snd sp))"
    by (simp add: np_row_def)
  from v have "cube ! nat (snd sp) \<in> set cube" by simp
  from find_neighbors_total [OF assms(1) this] obtain nbs where
    n: "find_neighbors (cube ! nat (snd sp)) cube h step False = Inr nbs" by blast
  from visit_neighbors_total [OF find_neighbors_fresh [OF n]] obtain s' where
    s': "visit_neighbors cube step k sp nbs (q, h, m) = Inr s'" by blast
  have st: "deform_step cube step k (sp # q, h, m) = Inr s'"
    by (simp add: and_then_def row n s')
  obtain q' h' m' where t: "s' = (q', h', m')" by (cases s') auto
  from deform_step_props [OF st [unfolded t]] obtain "is" new where r:
    "q' = q @ new" "snd ` set new \<subseteq> int ` set is" "\<forall>i\<in>set is. i < length cube \<and> int i \<notin> set h"
    by blast
  have "\<forall>el\<in>set new. 0 \<le> snd el \<and> snd el < int (length cube)"
  proof
    fix el assume "el \<in> set new"
    with r(2) obtain i where "i \<in> set is" "snd el = int i" by auto
    with r(3) show "0 \<le> snd el \<and> snd el < int (length cube)" by simp
  qed
  with assms(2) r(1) have "queue_valid cube s'"
    unfolding t by (auto simp: queue_valid_def list_all_iff)
  with st show ?thesis by blast
qed

lemma deform_loop_drains:
  assumes "neighbour_closed cube step"
  shows "queue_valid cube s \<longrightarrow>
    (\<exists>t. deform_loop cube step k s = Some (Inr t) \<and> fst t = [])"
proof (induction s rule: loop_induct [where cube = cube and step = step and k = k])
  case (1 s)
  show ?case
  proof
    assume v: "queue_valid cube s"
    show "\<exists>t. deform_loop cube step k s = Some (Inr t) \<and> fst t = []"
    proof (cases "fst s = []")
      case True
      then show ?thesis by (subst deform_loop.simps) simp
    next
      case False
      then obtain sp q h m where s: "s = (sp # q, h, m)"
        by (cases s, cases "fst s") auto
      from deform_step_total [OF assms v [unfolded s]] obtain s' where
        st: "deform_step cube step k s = Inr s'" and v': "queue_valid cube s'"
        unfolding s by blast
      from 1 [OF False st] v' st False show ?thesis
        by (subst deform_loop.simps) simp
    qed
  qed
qed

lemma deform_init_valid:
  assumes "deform_init src area v cube step = Inr s"
  shows "queue_valid cube s"
proof -
  from assms obtain region m0 where
    f: "find_original_sponsors (padd src v) src cube step area = Inr region" and
    s: "s = (region, map snd region, m0)"
    by (auto simp: deform_init_def and_then_def Let_def split: sum.splits)
  from find_original_sponsors_region [OF f] obtain st i where
    i: "find_index src cube = Some i" and
    r: "region = map (\<lambda>el. (padd (fst el) (psub (padd src v) src), snd el)) (st @ [(padd src v, int i)])"
    and st: "\<forall>el\<in>set st. \<exists>j. find_index (fst el) cube = Some j \<and> snd el = int j"
    by blast
  have "\<forall>el\<in>set (st @ [(padd src v, int i)]). 0 \<le> snd el \<and> snd el < int (length cube)"
  proof
    fix el assume "el \<in> set (st @ [(padd src v, int i)])"
    then consider "el \<in> set st" | "el = (padd src v, int i)" by auto
    then show "0 \<le> snd el \<and> snd el < int (length cube)"
    proof cases
      case 1
      with st obtain j where "find_index (fst el) cube = Some j" "snd el = int j" by blast
      with find_index_Some [OF this(1)] show ?thesis by simp
    next
      case 2
      with find_index_Some [OF i] show ?thesis by simp
    qed
  qed
  then show ?thesis unfolding s r queue_valid_def list_all_iff by simp
qed

lemma neighbour_closed_cube2: "neighbour_closed cube2 1"
  by (simp add: neighbour_closed_def cube2_def side_length_cube2)

lemma side_length_cube3: "n = 27 \<Longrightarrow> side_length n 1 = 3"
  by (rule side_length_eqI) simp_all

lemma neighbour_closed_cube3: "neighbour_closed cube3 1"
  by (simp add: neighbour_closed_def cube3_def side_length_cube3)

lemma set_lattice:
  "set (lattice n step) = {(int a * step, int b * step, int c * step) | a b c. a < n \<and> b < n \<and> c < n}"
proof (intro set_eqI iffI)
  fix p assume "p \<in> set (lattice n step)"
  then show "p \<in> {(int a * step, int b * step, int c * step) | a b c. a < n \<and> b < n \<and> c < n}"
    unfolding lattice_def by (simp only: set_concat set_map) fastforce
next
  fix p
  assume "p \<in> {(int a * step, int b * step, int c * step) | a b c. a < n \<and> b < n \<and> c < n}"
  then obtain a b c where "p = (int a * step, int b * step, int c * step)" "a < n" "b < n" "c < n"
    by blast
  then show "p \<in> set (lattice n step)"
    unfolding lattice_def by (simp only: set_concat set_map) force
qed

lemma length_lattice: "length (lattice n step) = n ^ 3"
  by (simp add: lattice_def length_concat comp_def sum_list_triv power3_eq_cube)

lemma side_length_lattice:
  assumes "0 < step" and "0 < n"
  shows "side_length (n ^ 3) step = int n * step"
proof (rule side_length_eqI)
  have "0 \<le> int n * step - 1" using assms by (simp add: pos_add_strict Suc_leI mult_pos_pos int_one_le_iff_zero_less)
  then have "(int n * step - 1) ^ 3 < (int n * step) ^ 3"
    by (intro power_strict_mono) simp_all
  then show "(int n * step - 1) ^ 3 < int (n ^ 3) * step ^ 3"
    by (simp add: power_mult_distrib)
  show "int (n ^ 3) * step ^ 3 \<le> (int n * step) ^ 3"
    by (simp add: power_mult_distrib)
qed

lemma lattice_up:
  assumes "0 < step" and "a < n" and "int a * step + step < int n * step"
  shows "\<exists>a'<n. int a * step + step = int a' * step"
proof -
  have "(int a + 1) * step < int n * step" using assms(3) by (simp add: algebra_simps)
  with assms(1) have "int a + 1 < int n" by (simp add: mult_less_cancel_right)
  then have "Suc a < n" by simp
  moreover have "int a * step + step = int (Suc a) * step" by (simp add: algebra_simps)
  ultimately show ?thesis by blast
qed

lemma lattice_down:
  assumes "0 < step" and "a < n" and "0 \<le> int a * step - step"
  shows "\<exists>a'<n. int a * step - step = int a' * step"
proof -
  have "0 \<le> (int a - 1) * step" using assms(3) by (simp add: algebra_simps)
  with assms(1) have "0 \<le> int a - 1" by (simp add: zero_le_mult_iff)
  then obtain a' where a': "a = Suc a'" by (cases a) auto
  with assms(2) have "a' < n" by simp
  moreover from a' have "int a * step - step = int a' * step" by (simp add: algebra_simps)
  ultimately show ?thesis by blast
qed

lemma neighbour_closed_lattice:
  assumes "0 < step"
  shows "neighbour_closed (lattice n step) step"
proof (cases "n = 0")
  case True
  then show ?thesis by (simp add: neighbour_closed_def lattice_def)
next
  case False
  then have n: "0 < n" by simp
  have side: "side_length (length (lattice n step)) step = int n * step"
    by (simp add: length_lattice side_length_lattice [OF assms n])
  show ?thesis
    unfolding neighbour_closed_def Let_def side list_all_iff
  proof (intro ballI)
    fix p assume "p \<in> set (lattice n step)"
    then obtain a b c where p: "p = (int a * step, int b * step, int c * step)"
      and l: "a < n" "b < n" "c < n"
      by (auto simp: set_lattice)
    note up = lattice_up [OF assms] and down = lattice_down [OF assms]
    show "case p of (x, y, z) \<Rightarrow>
        (x + step < int n * step \<longrightarrow> (x + step, y, z) \<in> set (lattice n step)) \<and>
        (x - step \<ge> 0 \<longrightarrow> (x - step, y, z) \<in> set (lattice n step)) \<and>
        (y + step < int n * step \<longrightarrow> (x, y + step, z) \<in> set (lattice n step)) \<and>
        (y - step \<ge> 0 \<longrightarrow> (x, y - step, z) \<in> set (lattice n step)) \<and>
        (z - step \<ge> 0 \<longrightarrow> (x, y, z - step) \<in> set (lattice n step)) \<and>
        (z + step < int n * step \<longrightarrow> (x, y, z + step) \<in> set (lattice n step))"
      unfolding p prod.case set_lattice
      using up [OF l(1)] up [OF l(2)] up [OF l(3)] down [OF l(1)] down [OF l(2)] down [OF l(3)] l
      by (intro conjI impI) (simp only: mem_Collect_eq, metis)+
  qed
qed

lemma cube2_lattice: "cube2 = lattice 2 1"
  by (simp add: cube2_def lattice_def numeral_2_eq_2)

lemma cube3_lattice: "cube3 = lattice 3 1"
  by (simp add: cube3_def lattice_def numeral_3_eq_3)

subsection \<open>Termination\<close>

text \<open>
  Claim C6. The propagation loop of \<open>deform\<close> ends from every state: it never runs
  forever. It ends either in a state whose queue is empty, or with the exception of a
  lookup that failed. Each pass either adds an index of the grid to the history that was
  not in it, or adds none and leaves a shorter queue. On a grid closed under neighbours,
  from the state that \<open>deform\<close> builds (or any state whose queue is valid), no lookup
  fails and the loop ends with the queue empty.
\<close>

theorem propagation_terminates:
  "(\<exists>r. deform_loop original_cube voxel_spacing stiffness_coef s = Some r \<and>
        (case r of Inl e \<Rightarrow> True | Inr t \<Rightarrow> fst t = [])) \<and>
   (neighbour_closed original_cube voxel_spacing \<and>
    (queue_valid original_cube s \<or>
     (\<exists>disp_src disp_area disp_vector.
        deform_init disp_src disp_area disp_vector original_cube voxel_spacing = Inr s)) \<longrightarrow>
    (\<exists>t. deform_loop original_cube voxel_spacing stiffness_coef s = Some (Inr t) \<and> fst t = []))"
proof (intro conjI impI)
  show "\<exists>r. deform_loop original_cube voxel_spacing stiffness_coef s = Some r \<and>
        (case r of Inl e \<Rightarrow> True | Inr t \<Rightarrow> fst t = [])"
    by (rule deform_loop_terminates)
next
  assume a: "neighbour_closed original_cube voxel_spacing \<and>
    (queue_valid original_cube s \<or>
     (\<exists>disp_src disp_area disp_vector.
        deform_init disp_src disp_area disp_vector original_cube voxel_spacing = Inr s))"
  then have "queue_valid original_cube s" using deform_init_valid by blast
  with a deform_loop_drains
  show "\<exists>t. deform_loop original_cube voxel_spacing stiffness_coef s = Some (Inr t) \<and> fst t = []"
    by blast
qed

theorem propagation_terminates_witness:
  "neighbour_closed cube2 1 \<and>
   deform_init (0, 0, 0) 1 (1, 0, 0) cube2 1 =
     Inr ([((2, 0, 0), 4), ((1, 1, 0), 2), ((2, 0, 0), 0)], [4, 2, 0],
          [(2, 0, 0), (0, 0, 1), (1, 1, 0), (0, 1, 1), (2, 0, 0), (1, 0, 1), (1, 1, 0), (1, 1, 1)]) \<and>
   (\<exists>t. deform_loop cube2 1 0
          ([((2, 0, 0), 4), ((1, 1, 0), 2), ((2, 0, 0), 0)], [4, 2, 0],
           [(2, 0, 0), (0, 0, 1), (1, 1, 0), (0, 1, 1), (2, 0, 0), (1, 0, 1), (1, 1, 0), (1, 1, 1)])
        = Some (Inr t) \<and> fst t = [])"
proof -
  have a: "neighbour_closed cube2 1"
    unfolding cube2_lattice by (rule neighbour_closed_lattice) simp
  have b: "deform_init (0, 0, 0) 1 (1, 0, 0) cube2 1 =
     Inr ([((2, 0, 0), 4), ((1, 1, 0), 2), ((2, 0, 0), 0)], [4, 2, 0],
          [(2, 0, 0), (0, 0, 1), (1, 1, 0), (0, 1, 1), (2, 0, 0), (1, 0, 1), (1, 1, 0), (1, 1, 1)])"
    by (simp add: run_simps cube2_def)
  from a b have c: "neighbour_closed cube2 1 \<and>
    (queue_valid cube2 ([((2, 0, 0), 4), ((1, 1, 0), 2), ((2, 0, 0), 0)], [4, 2, 0],
          [(2, 0, 0), (0, 0, 1), (1, 1, 0), (0, 1, 1), (2, 0, 0), (1, 0, 1), (1, 1, 0), (1, 1, 1)]) \<or>
     (\<exists>disp_src disp_area disp_vector.
        deform_init disp_src disp_area disp_vector cube2 1 =
     Inr ([((2, 0, 0), 4), ((1, 1, 0), 2), ((2, 0, 0), 0)], [4, 2, 0],
          [(2, 0, 0), (0, 0, 1), (1, 1, 0), (0, 1, 1), (2, 0, 0), (1, 0, 1), (1, 1, 0), (1, 1, 1)])))"
    by blast
  from propagation_terminates [of cube2 1 0, THEN conjunct2, rule_format, OF c] a b
  show ?thesis by (intro conjI)
qed

end
